theory Spec2Isabelle
  imports Main "HOL-Library.AList"
begin

section \<open>Python strings and the character tables the code consults\<close>

text \<open>
  A Python \<open>str\<close> is a sequence of Unicode code points; \<open>len\<close>, slicing and the
  pattern engine all count code points. A string is therefore a list of code points.
\<close>

type_synonym pystr = "nat list"

definition u :: "string \<Rightarrow> pystr" where
  "u s = map of_char s"

text \<open>
  The Unicode character database is not part of the repository. Its whitespace set is
  small and written out; for letters, digits and case of code points from 128 on the
  tables are a parameter.
\<close>

record utab =
  uni_alnum :: "nat \<Rightarrow> bool"
  uni_decimal :: "nat \<Rightarrow> bool"
  uni_ci_eq :: "nat \<Rightarrow> nat \<Rightarrow> bool"
  uni_lower :: "pystr \<Rightarrow> pystr"

definition is_space :: "nat \<Rightarrow> bool" where
  "is_space c = ((9 \<le> c \<and> c \<le> 13) \<or> (28 \<le> c \<and> c \<le> 32) \<or> c = 133 \<or> c = 160
     \<or> c = 5760 \<or> (8192 \<le> c \<and> c \<le> 8202) \<or> c = 8232 \<or> c = 8233
     \<or> c = 8239 \<or> c = 8287 \<or> c = 12288)"

definition is_digit :: "utab \<Rightarrow> nat \<Rightarrow> bool" where
  "is_digit U c = (if c < 128 then 48 \<le> c \<and> c \<le> 57 else uni_decimal U c)"

definition is_word :: "utab \<Rightarrow> nat \<Rightarrow> bool" where
  "is_word U c = (if c < 128
     then (48 \<le> c \<and> c \<le> 57) \<or> (65 \<le> c \<and> c \<le> 90) \<or> (97 \<le> c \<and> c \<le> 122) \<or> c = 95
     else uni_alnum U c)"

definition ascii_lower :: "nat \<Rightarrow> nat" where
  "ascii_lower c = (if 65 \<le> c \<and> c \<le> 90 then c + 32 else c)"

definition ci_eq :: "utab \<Rightarrow> nat \<Rightarrow> nat \<Rightarrow> bool" where
  "ci_eq U a b = (if a < 128 \<and> b < 128 then ascii_lower a = ascii_lower b
     else a = b \<or> uni_ci_eq U a b)"

text \<open>\<open>str.lower()\<close>. On a string of ASCII characters it lowers each letter. On any
  other string the result depends on the whole string (a final sigma is lowered by its
  position), so it is taken from the tables as a function of the string.\<close>

definition str_lower :: "utab \<Rightarrow> pystr \<Rightarrow> pystr" where
  "str_lower U s = (if list_all (\<lambda>c. c < 128) s then map ascii_lower s else uni_lower U s)"

definition str_strip :: "pystr \<Rightarrow> pystr" where
  "str_strip s = rev (dropWhile is_space (rev (dropWhile is_space s)))"

fun startswith :: "pystr \<Rightarrow> pystr \<Rightarrow> bool" where
  "startswith s [] = True"
| "startswith [] (p # ps) = False"
| "startswith (c # cs) (p # ps) = (c = p \<and> startswith cs ps)"

fun contains :: "pystr \<Rightarrow> pystr \<Rightarrow> bool" where
  "contains [] p = (p = [])"
| "contains (c # cs) p = (startswith (c # cs) p \<or> contains cs p)"

fun split_on :: "nat \<Rightarrow> pystr \<Rightarrow> pystr list" where
  "split_on d [] = [[]]"
| "split_on d (c # cs) = (if c = d then [] # split_on d cs
     else (case split_on d cs of [] \<Rightarrow> [[c]] | l # ls \<Rightarrow> (c # l) # ls))"

fun join :: "pystr \<Rightarrow> pystr list \<Rightarrow> pystr" where
  "join d [] = []"
| "join d [l] = l"
| "join d (l # ls) = l @ d @ join d ls"

definition replace_chr :: "nat \<Rightarrow> nat \<Rightarrow> pystr \<Rightarrow> pystr" where
  "replace_chr a b s = map (\<lambda>c. if c = a then b else c) s"

section \<open>The pattern engine\<close>

text \<open>
  The patterns of the processor use literals, classes, sets, ordered alternation, greedy
  and lazy repetition, groups, look-ahead and anchors. The matcher below is a
  backtracking matcher with the priorities of Python's \<open>re\<close>: alternatives left to
  right, a greedy repetition tries one more round first, a lazy one tries to stop first.
\<close>

record reflags =
  icase :: bool
  multiline :: bool
  dotall :: bool

datatype cls = CSpace | CWord | CDigit

datatype rx =
    Lit nat
  | Dot
  | Cls cls
  | OneOf "nat list"
  | Eps
  | Seq rx rx
  | Alt rx rx
  | Star bool rx
  | Grp nat rx
  | Ahead bool rx
  | Bol
  | Eol
  | EndZ
  | WordB

definition Plus :: "bool \<Rightarrow> rx \<Rightarrow> rx" where
  "Plus g r = Seq r (Star g r)"

definition Opt :: "rx \<Rightarrow> rx" where
  "Opt r = Alt r Eps"

definition cat :: "rx list \<Rightarrow> rx" where
  "cat rs = foldr Seq rs Eps"

definition str :: "string \<Rightarrow> rx" where
  "str s = cat (map (\<lambda>c. Lit (of_char c)) s)"

datatype mstate = MState (rest: pystr) (prev: "nat option") (pos: nat)
  (caps: "(nat \<times> pystr) list")

definition in_cls :: "utab \<Rightarrow> cls \<Rightarrow> nat \<Rightarrow> bool" where
  "in_cls U k c = (case k of CSpace \<Rightarrow> is_space c | CWord \<Rightarrow> is_word U c | CDigit \<Rightarrow> is_digit U c)"

definition step :: "(nat \<Rightarrow> bool) \<Rightarrow> mstate \<Rightarrow> (mstate \<Rightarrow> mstate option) \<Rightarrow> mstate option" where
  "step P s k = (case rest s of [] \<Rightarrow> None
     | c # cs \<Rightarrow> if P c then k (MState cs (Some c) (pos s + 1) (caps s)) else None)"

definition at_bol :: "reflags \<Rightarrow> mstate \<Rightarrow> bool" where
  "at_bol F s = (case prev s of None \<Rightarrow> True | Some c \<Rightarrow> multiline F \<and> c = 10)"

definition at_eol :: "reflags \<Rightarrow> mstate \<Rightarrow> bool" where
  "at_eol F s = (case rest s of [] \<Rightarrow> True
     | c # cs \<Rightarrow> c = 10 \<and> (multiline F \<or> cs = []))"

definition at_wordb :: "utab \<Rightarrow> mstate \<Rightarrow> bool" where
  "at_wordb U s =
     ((case prev s of None \<Rightarrow> False | Some c \<Rightarrow> is_word U c)
       \<noteq> (case rest s of [] \<Rightarrow> False | c # cs \<Rightarrow> is_word U c))"

text \<open>
  Repetition. The third argument bounds the number of rounds by the text still unread;
  a round that consumes nothing is not repeated.
\<close>

primrec star :: "bool \<Rightarrow> (mstate \<Rightarrow> (mstate \<Rightarrow> mstate option) \<Rightarrow> mstate option) \<Rightarrow> pystr
    \<Rightarrow> mstate \<Rightarrow> (mstate \<Rightarrow> mstate option) \<Rightarrow> mstate option" where
  "star g body [] s k = k s"
| "star g body (x # fuel) s k =
     (if g
      then (case body s (\<lambda>s'. if pos s < pos s' then star g body fuel s' k else None) of
              Some e \<Rightarrow> Some e
            | None \<Rightarrow> k s)
      else (case k s of
              Some e \<Rightarrow> Some e
            | None \<Rightarrow> body s (\<lambda>s'. if pos s < pos s' then star g body fuel s' k else None)))"

primrec rmatch :: "rx \<Rightarrow> utab \<Rightarrow> reflags \<Rightarrow> mstate \<Rightarrow> (mstate \<Rightarrow> mstate option) \<Rightarrow> mstate option" where
  "rmatch (Lit c) U F s k = step (\<lambda>x. if icase F then ci_eq U c x else x = c) s k"
| "rmatch Dot U F s k = step (\<lambda>x. dotall F \<or> x \<noteq> 10) s k"
| "rmatch (Cls c) U F s k = step (in_cls U c) s k"
| "rmatch (OneOf cs) U F s k = step (\<lambda>x. x \<in> set cs) s k"
| "rmatch Eps U F s k = k s"
| "rmatch (Seq a b) U F s k = rmatch a U F s (\<lambda>s'. rmatch b U F s' k)"
| "rmatch (Alt a b) U F s k =
     (case rmatch a U F s k of Some e \<Rightarrow> Some e | None \<Rightarrow> rmatch b U F s k)"
| "rmatch (Star g r) U F s k = star g (rmatch r U F) (rest s) s k"
| "rmatch (Grp n r) U F s k =
     rmatch r U F s (\<lambda>s'. k (MState (rest s') (prev s') (pos s')
        (AList.update n (take (pos s' - pos s) (rest s)) (caps s'))))"
| "rmatch (Ahead b r) U F s k =
     (case rmatch r U F s Some of
        Some e \<Rightarrow> if b then k s else None
      | None \<Rightarrow> if b then None else k s)"
| "rmatch Bol U F s k = (if at_bol F s then k s else None)"
| "rmatch Eol U F s k = (if at_eol F s then k s else None)"
| "rmatch EndZ U F s k = (if rest s = [] then k s else None)"
| "rmatch WordB U F s k = (if at_wordb U s then k s else None)"


text \<open>
  One attempt at a position. \<open>adv\<close> is the engine's rule after an empty match: the
  next match may start where that one ended only if it is not empty.
\<close>

definition attempt :: "rx \<Rightarrow> utab \<Rightarrow> reflags \<Rightarrow> bool \<Rightarrow> mstate \<Rightarrow> mstate option" where
  "attempt r U F adv s = rmatch r U F s (\<lambda>e. if adv \<and> pos e = pos s then None else Some e)"

datatype rematch = ReMatch (m_start: nat) (m_text: pystr) (m_groups: "(nat \<times> pystr) list")
  (m_end: mstate)

definition mk_match :: "mstate \<Rightarrow> mstate \<Rightarrow> rematch" where
  "mk_match s e = ReMatch (pos s) (take (pos e - pos s) (rest s)) (caps e) e"

definition grp :: "rematch \<Rightarrow> nat \<Rightarrow> pystr" where
  "grp m n = (case map_of (m_groups m) n of Some g \<Rightarrow> g | None \<Rightarrow> [])"

text \<open>Leftmost match at or after the position \<open>(xs, p, i)\<close>: unread text, previous
  character, index.\<close>

fun rsearch :: "rx \<Rightarrow> utab \<Rightarrow> reflags \<Rightarrow> bool \<Rightarrow> pystr \<Rightarrow> nat option \<Rightarrow> nat \<Rightarrow> rematch option" where
  "rsearch r U F adv [] p i =
     (case attempt r U F adv (MState [] p i []) of
        Some e \<Rightarrow> Some (mk_match (MState [] p i []) e)
      | None \<Rightarrow> None)"
| "rsearch r U F adv (x # xs) p i =
     (case attempt r U F adv (MState (x # xs) p i []) of
        Some e \<Rightarrow> Some (mk_match (MState (x # xs) p i []) e)
      | None \<Rightarrow> rsearch r U F False xs (Some x) (i + 1))"

definition ahead :: "mstate \<Rightarrow> mstate \<Rightarrow> bool" where
  "ahead s s' = (\<exists>ys. rest s = ys @ rest s' \<and> pos s' = pos s + length ys)"

lemma ahead_refl: "ahead s s"
  by (simp add: ahead_def)

lemma ahead_trans: "ahead a b \<Longrightarrow> ahead b c \<Longrightarrow> ahead a c"
  unfolding ahead_def by auto

lemma ahead_pos: "ahead s s' \<Longrightarrow> pos s \<le> pos s'"
  by (auto simp: ahead_def)

lemma ahead_len: "ahead s s' \<Longrightarrow> length (rest s) = length (rest s') + (pos s' - pos s)"
  by (auto simp: ahead_def)

lemma step_ahead:
  assumes "step P s k = Some e"
  shows "\<exists>s'. ahead s s' \<and> k s' = Some e"
proof (cases "rest s")
  case Nil
  with assms show ?thesis by (simp add: step_def)
next
  case (Cons c cs)
  with assms have P: "P c" and K: "k (MState cs (Some c) (pos s + 1) (caps s)) = Some e"
    by (auto simp: step_def split: if_splits)
  have "ahead s (MState cs (Some c) (pos s + 1) (caps s))"
    unfolding ahead_def using Cons by (intro exI[of _ "[c]"]) simp
  with K show ?thesis by blast
qed

lemma star_ahead:
  assumes body: "\<And>s k e. body s k = Some e \<Longrightarrow> \<exists>s'. ahead s s' \<and> k s' = Some e"
  shows "star g body fuel s k = Some e \<Longrightarrow> \<exists>s'. ahead s s' \<and> k s' = Some e"
proof (induction fuel arbitrary: s e)
  case Nil
  then show ?case using ahead_refl by auto
next
  case (Cons x fuel)
  let ?k' = "\<lambda>s'. if pos s < pos s' then star g body fuel s' k else None"
  from Cons.prems have "k s = Some e \<or> body s ?k' = Some e"
    by (auto split: if_splits option.splits)
  then show ?case
  proof
    assume "k s = Some e"
    then show ?thesis using ahead_refl by blast
  next
    assume "body s ?k' = Some e"
    from body[OF this] obtain s1 where a1: "ahead s s1" and k1: "?k' s1 = Some e" by blast
    from k1 have "star g body fuel s1 k = Some e" by (auto split: if_splits)
    from Cons.IH[OF this] obtain s2 where "ahead s1 s2" "k s2 = Some e" by blast
    with a1 show ?thesis using ahead_trans by blast
  qed
qed

lemma rmatch_ahead:
  "rmatch r U F s k = Some e \<Longrightarrow> \<exists>s'. ahead s s' \<and> k s' = Some e"
proof (induction r arbitrary: s k e)
  case (Seq a b)
  from Seq.prems have "rmatch a U F s (\<lambda>s'. rmatch b U F s' k) = Some e" by simp
  from Seq.IH(1)[OF this] obtain s1 where a1: "ahead s s1" and "rmatch b U F s1 k = Some e"
    by blast
  from Seq.IH(2)[OF this(2)] a1 show ?case using ahead_trans by blast
next
  case (Alt a b)
  then show ?case by (auto split: option.splits)
next
  case (Star g r)
  from Star.prems have "star g (rmatch r U F) (rest s) s k = Some e" by simp
  then show ?case using star_ahead[of "rmatch r U F"] Star.IH by blast
next
  case (Grp n r)
  let ?k' = "\<lambda>s'. k (MState (rest s') (prev s') (pos s')
        (AList.update n (take (pos s' - pos s) (rest s)) (caps s')))"
  from Grp.prems have "rmatch r U F s ?k' = Some e" by simp
  from Grp.IH[OF this] obtain s1 where a1: "ahead s s1" and k1: "?k' s1 = Some e" by blast
  have "ahead s (MState (rest s1) (prev s1) (pos s1)
        (AList.update n (take (pos s1 - pos s) (rest s)) (caps s1)))"
    using a1 by (simp add: ahead_def)
  with k1 show ?case by blast
next
  case (Ahead b r)
  then show ?case using ahead_refl by (auto split: option.splits if_splits)
qed (auto dest: step_ahead intro: ahead_refl split: if_splits)

lemma attempt_ahead:
  assumes "attempt r U F adv s = Some e"
  shows "ahead s e \<and> (adv \<longrightarrow> pos s < pos e)"
proof -
  from assms obtain s' where a: "ahead s s'"
    and k: "(if adv \<and> pos s' = pos s then None else Some s') = Some e"
    unfolding attempt_def using rmatch_ahead by blast
  from k have "s' = e" "adv \<longrightarrow> pos e \<noteq> pos s" by (auto split: if_splits)
  with a ahead_pos[OF a] show ?thesis by auto
qed

lemma rsearch_end:
  "rsearch r U F adv xs p i = Some m \<Longrightarrow>
     i \<le> m_start m \<and> m_start m \<le> pos (m_end m)
     \<and> length xs = length (rest (m_end m)) + (pos (m_end m) - i)
     \<and> (adv \<longrightarrow> i < pos (m_end m))"
proof (induction xs arbitrary: adv p i)
  case Nil
  then obtain e where e: "attempt r U F adv (MState [] p i []) = Some e"
    and m: "m = mk_match (MState [] p i []) e"
    by (auto split: option.splits)
  from attempt_ahead[OF e] show ?case
    using m by (auto simp: mk_match_def dest: ahead_len ahead_pos)
next
  case (Cons x xs)
  show ?case
  proof (cases "attempt r U F adv (MState (x # xs) p i [])")
    case (Some e)
    with Cons.prems have m: "m = mk_match (MState (x # xs) p i []) e" by simp
    from attempt_ahead[OF Some] show ?thesis
      using m by (auto simp: mk_match_def dest: ahead_len ahead_pos)
  next
    case None
    with Cons.prems have "rsearch r U F False xs (Some x) (i + 1) = Some m" by simp
    from Cons.IH[OF this] show ?thesis by auto
  qed
qed

text \<open>All matches from left to right, none overlapping another (\<open>finditer\<close>).\<close>

function scan :: "rx \<Rightarrow> utab \<Rightarrow> reflags \<Rightarrow> bool \<Rightarrow> pystr \<Rightarrow> nat option \<Rightarrow> nat \<Rightarrow> rematch list" where
  "scan r U F adv xs p i =
     (case rsearch r U F adv xs p i of
        None \<Rightarrow> []
      | Some m \<Rightarrow> m # scan r U F (pos (m_end m) = m_start m)
          (rest (m_end m)) (prev (m_end m)) (pos (m_end m)))"
  by pat_completeness auto
termination
proof (relation "measures [\<lambda>(r, U, F, adv, xs, p, i). length xs,
                           \<lambda>(r, U, F, adv, xs, p, i). if adv then 0 else 1]", goal_cases)
  case 1
  show ?case by simp
next
  case (2 r U F adv xs p i m)
  from rsearch_end[OF 2] show ?case by auto
qed

declare scan.simps [simp del]

definition finditer :: "rx \<Rightarrow> utab \<Rightarrow> reflags \<Rightarrow> pystr \<Rightarrow> rematch list" where
  "finditer r U F t = scan r U F False t None 0"

definition re_search :: "rx \<Rightarrow> utab \<Rightarrow> reflags \<Rightarrow> pystr \<Rightarrow> rematch option" where
  "re_search r U F t = rsearch r U F False t None 0"

definition re_match :: "rx \<Rightarrow> utab \<Rightarrow> reflags \<Rightarrow> pystr \<Rightarrow> rematch option" where
  "re_match r U F t =
     (case attempt r U F False (MState t None 0 []) of
        Some e \<Rightarrow> Some (mk_match (MState t None 0 []) e)
      | None \<Rightarrow> None)"

fun split_at :: "pystr \<Rightarrow> nat \<Rightarrow> rematch list \<Rightarrow> pystr list" where
  "split_at t cur [] = [drop cur t]"
| "split_at t cur (m # ms) =
     take (m_start m - cur) (drop cur t) # split_at t (pos (m_end m)) ms"

definition re_split :: "rx \<Rightarrow> utab \<Rightarrow> reflags \<Rightarrow> pystr \<Rightarrow> pystr list" where
  "re_split r U F t = split_at t 0 (finditer r U F t)"


section \<open>What the matcher can reach\<close>

text \<open>
  The states a pattern can end in from a given state, without regard to priority. The
  matcher fails exactly when its continuation fails on all of them, and succeeds only
  through one of them.
\<close>

definition step_set :: "(nat \<Rightarrow> bool) \<Rightarrow> mstate \<Rightarrow> mstate set" where
  "step_set P s = (case rest s of [] \<Rightarrow> {}
     | c # cs \<Rightarrow> if P c then {MState cs (Some c) (pos s + 1) (caps s)} else {})"

inductive_set star_reach :: "(mstate \<Rightarrow> mstate set) \<Rightarrow> (mstate \<times> mstate) set"
  for f :: "mstate \<Rightarrow> mstate set" where
  stop: "(s, s) \<in> star_reach f"
| round: "s1 \<in> f s \<Longrightarrow> pos s < pos s1 \<Longrightarrow> (s1, s2) \<in> star_reach f \<Longrightarrow> (s, s2) \<in> star_reach f"

primrec reach :: "rx \<Rightarrow> utab \<Rightarrow> reflags \<Rightarrow> mstate \<Rightarrow> mstate set" where
  "reach (Lit c) U F s = step_set (\<lambda>x. if icase F then ci_eq U c x else x = c) s"
| "reach Dot U F s = step_set (\<lambda>x. dotall F \<or> x \<noteq> 10) s"
| "reach (Cls c) U F s = step_set (in_cls U c) s"
| "reach (OneOf cs) U F s = step_set (\<lambda>x. x \<in> set cs) s"
| "reach Eps U F s = {s}"
| "reach (Seq a b) U F s = (\<Union>s1 \<in> reach a U F s. reach b U F s1)"
| "reach (Alt a b) U F s = reach a U F s \<union> reach b U F s"
| "reach (Star g r) U F s = {s'. (s, s') \<in> star_reach (reach r U F)}"
| "reach (Grp n r) U F s =
     (\<lambda>s'. MState (rest s') (prev s') (pos s')
        (AList.update n (take (pos s' - pos s) (rest s)) (caps s'))) ` reach r U F s"
| "reach (Ahead b r) U F s = (if (reach r U F s \<noteq> {}) = b then {s} else {})"
| "reach Bol U F s = (if at_bol F s then {s} else {})"
| "reach Eol U F s = (if at_eol F s then {s} else {})"
| "reach EndZ U F s = (if rest s = [] then {s} else {})"
| "reach WordB U F s = (if at_wordb U s then {s} else {})"

lemma step_set_ahead: "s' \<in> step_set P s \<Longrightarrow> ahead s s'"
  by (cases "rest s") (auto simp: step_set_def ahead_def split: if_splits)

lemma star_reach_ahead:
  assumes "\<And>s s'. s' \<in> f s \<Longrightarrow> ahead s s'"
  shows "(s, s') \<in> star_reach f \<Longrightarrow> ahead s s'"
  by (induction rule: star_reach.induct) (auto intro: ahead_refl ahead_trans assms)

lemma reach_ahead: "s' \<in> reach r U F s \<Longrightarrow> ahead s s'"
proof (induction r arbitrary: s s')
  case (Seq a b)
  from Seq.prems obtain s1 where "s1 \<in> reach a U F s" "s' \<in> reach b U F s1" by auto
  then show ?case using Seq.IH ahead_trans by blast
next
  case (Star g r)
  then show ?case using star_reach_ahead[of "reach r U F"] by auto
next
  case (Grp n r)
  then show ?case by (auto simp: ahead_def)
qed (auto dest: step_set_ahead intro: ahead_refl split: if_splits)

lemma step_None_iff: "step P s k = None \<longleftrightarrow> (\<forall>s' \<in> step_set P s. k s' = None)"
  by (cases "rest s") (auto simp: step_def step_set_def)

lemma star_reach_unfold:
  "{s'. (s, s') \<in> star_reach f}
     = insert s (\<Union>s1 \<in> {s1 \<in> f s. pos s < pos s1}. {s'. (s1, s') \<in> star_reach f})"
  by (auto intro: star_reach.intros elim: star_reach.cases)

lemma star_None_iff:
  assumes body: "\<And>s k. body s k = None \<longleftrightarrow> (\<forall>s' \<in> f s. k s' = None)"
    and f_ahead: "\<And>s s'. s' \<in> f s \<Longrightarrow> ahead s s'"
  shows "length (rest s) \<le> length fuel \<Longrightarrow>
     star g body fuel s k = None \<longleftrightarrow> (\<forall>s'. (s, s') \<in> star_reach f \<longrightarrow> k s' = None)"
proof (induction fuel arbitrary: s)
  case Nil
  then have e: "rest s = []" by simp
  have "s1 \<in> f s \<Longrightarrow> \<not> pos s < pos s1" for s1
    using f_ahead[of s1 s] e by (auto simp: ahead_def)
  then have "{s'. (s, s') \<in> star_reach f} = {s}"
    by (subst star_reach_unfold) auto
  then have "\<And>s'. (s, s') \<in> star_reach f \<longleftrightarrow> s' = s" by blast
  then show ?case by simp
next
  case (Cons x fuel)
  let ?k' = "\<lambda>s'. if pos s < pos s' then star g body fuel s' k else None"
  have ih: "star g body fuel s1 k = None \<longleftrightarrow> (\<forall>s'. (s1, s') \<in> star_reach f \<longrightarrow> k s' = None)"
    if "s1 \<in> f s" "pos s < pos s1" for s1
  proof -
    from f_ahead[OF that(1)] have "length (rest s) = length (rest s1) + (pos s1 - pos s)"
      by (rule ahead_len)
    with that(2) Cons.prems have "length (rest s1) \<le> length fuel"
      by simp
    then show ?thesis by (rule Cons.IH)
  qed
  have "star g body (x # fuel) s k = None \<longleftrightarrow> k s = None \<and> body s ?k' = None"
    by (auto split: option.splits)
  also have "body s ?k' = None \<longleftrightarrow> (\<forall>s1 \<in> f s. pos s < pos s1 \<longrightarrow> star g body fuel s1 k = None)"
    by (simp add: body)
  also have "\<dots> \<longleftrightarrow> (\<forall>s1 \<in> f s. pos s < pos s1 \<longrightarrow> (\<forall>s'. (s1, s') \<in> star_reach f \<longrightarrow> k s' = None))"
    using ih by blast
  finally have "star g body (x # fuel) s k = None \<longleftrightarrow>
      (\<forall>s' \<in> {s'. (s, s') \<in> star_reach f}. k s' = None)"
    by (subst star_reach_unfold) auto
  then show ?case by simp
qed

theorem rmatch_None_iff:
  "rmatch r U F s k = None \<longleftrightarrow> (\<forall>s' \<in> reach r U F s. k s' = None)"
proof (induction r arbitrary: s k)
  case (Seq a b)
  show ?case by (simp add: Seq.IH)
next
  case (Alt a b)
  have "rmatch (Alt a b) U F s k = None
      \<longleftrightarrow> rmatch a U F s k = None \<and> rmatch b U F s k = None"
    by (auto split: option.splits)
  then show ?case by (simp add: Alt.IH ball_Un)
next
  case (Star g r)
  show ?case
    using star_None_iff[of "rmatch r U F" "reach r U F" s "rest s" g k] Star.IH reach_ahead
    by simp
next
  case (Grp n r)
  show ?case by (simp add: Grp.IH)
next
  case (Ahead b r)
  have "rmatch r U F s Some = None \<longleftrightarrow> reach r U F s = {}"
    by (simp add: Ahead.IH)
  then show ?case by (cases "rmatch r U F s Some") auto
qed (simp_all add: step_None_iff)

lemma step_Some_reach: "step P s k = Some e \<Longrightarrow> \<exists>s' \<in> step_set P s. k s' = Some e"
  by (cases "rest s") (auto simp: step_def step_set_def split: if_splits)

lemma star_Some_reach:
  assumes body: "\<And>s k e. body s k = Some e \<Longrightarrow> \<exists>s' \<in> f s. k s' = Some e"
  shows "star g body fuel s k = Some e \<Longrightarrow> \<exists>s'. (s, s') \<in> star_reach f \<and> k s' = Some e"
proof (induction fuel arbitrary: s)
  case Nil
  then show ?case by (auto intro: star_reach.stop)
next
  case (Cons x fuel)
  let ?k' = "\<lambda>s'. if pos s < pos s' then star g body fuel s' k else None"
  from Cons.prems have "k s = Some e \<or> body s ?k' = Some e"
    by (auto split: if_splits option.splits)
  then show ?case
  proof
    assume "k s = Some e"
    then show ?thesis by (auto intro: star_reach.stop)
  next
    assume "body s ?k' = Some e"
    from body[OF this] obtain s1 where s1: "s1 \<in> f s" and k1: "?k' s1 = Some e" by blast
    from k1 have p: "pos s < pos s1" and "star g body fuel s1 k = Some e"
      by (auto split: if_splits)
    from Cons.IH[OF this(2)] obtain s2 where "(s1, s2) \<in> star_reach f" "k s2 = Some e" by blast
    with s1 p show ?thesis by (auto intro: star_reach.round)
  qed
qed

theorem rmatch_Some_reach:
  "rmatch r U F s k = Some e \<Longrightarrow> \<exists>s' \<in> reach r U F s. k s' = Some e"
proof (induction r arbitrary: s k e)
  case (Lit c)
  then show ?case unfolding rmatch.simps reach.simps by (rule step_Some_reach)
next
  case (Seq a b)
  from Seq.prems have "rmatch a U F s (\<lambda>s'. rmatch b U F s' k) = Some e" by simp
  from Seq.IH(1)[OF this] obtain s1 where "s1 \<in> reach a U F s" "rmatch b U F s1 k = Some e"
    by blast
  with Seq.IH(2)[OF this(2)] show ?case by auto
next
  case (Alt a b)
  from Alt.prems have "rmatch a U F s k = Some e \<or> rmatch b U F s k = Some e"
    by (auto split: option.splits)
  then show ?case
  proof
    assume "rmatch a U F s k = Some e"
    from Alt.IH(1)[OF this] show ?thesis by auto
  next
    assume "rmatch b U F s k = Some e"
    from Alt.IH(2)[OF this] show ?thesis by auto
  qed
next
  case (Star g r)
  from Star.prems have "star g (rmatch r U F) (rest s) s k = Some e" by simp
  from star_Some_reach[of "rmatch r U F" "reach r U F", OF _ this] Star.IH
  show ?case by auto
next
  case (Grp n r)
  from Grp.prems Grp.IH show ?case by fastforce
next
  case (Ahead b r)
  have "rmatch r U F s Some = None \<longleftrightarrow> reach r U F s = {}"
    by (simp add: rmatch_None_iff)
  with Ahead.prems show ?case
    by (cases "rmatch r U F s Some") (auto split: if_splits)
qed (auto dest: step_Some_reach split: if_splits)

section \<open>Values, errors and the environment\<close>

text \<open>
  The parsers return untyped Python values. Floats are never inspected by the code and
  are kept as their lexeme. A dict is an association list in insertion order;
  \<open>AList.update\<close> is Python's item assignment (an existing key keeps its place).
\<close>

datatype pyval =
    PNone
  | PBool bool
  | PInt int
  | PFloat pystr
  | PStr pystr
  | PList "pyval list"
  | PDict "(pystr \<times> pyval) list"

type_synonym pydict = "(pystr \<times> pyval) list"

datatype exn = JSONDecodeError | TypeError | AttributeError | RecursionError

text \<open>
  \<open>json.loads\<close>, \<open>yaml.safe_load\<close> (of which the code only uses whether it raises),
  the clock and the character tables are not code of the repository: they are the
  environment of a call.
\<close>

record env =
  tab :: utab
  json_loads :: "pystr \<Rightarrow> exn + pyval"
  yaml_safe_load_ok :: "pystr \<Rightarrow> bool"
  now_iso :: pystr

section \<open>The patterns of the processor\<close>

definition alts :: "rx list \<Rightarrow> rx" where
  "alts rs = foldr Alt (butlast rs) (last rs)"

abbreviation "sp \<equiv> Cls CSpace"
abbreviation "dg \<equiv> Cls CDigit"
abbreviation "NL \<equiv> Lit 10"
abbreviation "quote \<equiv> OneOf [34, 39]"

definition fl_none :: reflags where
  "fl_none = \<lparr>icase = False, multiline = False, dotall = False\<rparr>"
definition fl_M :: reflags where
  "fl_M = \<lparr>icase = False, multiline = True, dotall = False\<rparr>"
definition fl_S :: reflags where
  "fl_S = \<lparr>icase = False, multiline = False, dotall = True\<rparr>"
definition fl_SM :: reflags where
  "fl_SM = \<lparr>icase = False, multiline = True, dotall = True\<rparr>"
definition fl_IM :: reflags where
  "fl_IM = \<lparr>icase = True, multiline = True, dotall = False\<rparr>"

text \<open>\<^verbatim>\<open>```(?:json|patch|diff)\<close>\<close>
definition fence_tag_pat :: rx where
  "fence_tag_pat = cat [str ''```'', alts [str ''json'', str ''patch'', str ''diff'']]"

text \<open>\<^verbatim>\<open>^#+\s+\<close>\<close>
definition heading_pat :: rx where
  "heading_pat = cat [Bol, Plus True (Lit 35), Plus True sp]"

text \<open>\<^verbatim>\<open>```json\s*\n(.*?)\n```\<close>\<close>
definition json_pattern :: rx where
  "json_pattern = cat [str ''```json'', Star True sp, NL, Grp 1 (Star False Dot), NL, str ''```'']"

text \<open>\<^verbatim>\<open>\n#+\s+\<close>\<close>
definition section_pat :: rx where
  "section_pat = cat [NL, Plus True (Lit 35), Plus True sp]"

text \<open>\<^verbatim>\<open>```(?!json)(\w+)?\s*\n(.*?)\n```\<close>\<close>
definition code_pattern :: rx where
  "code_pattern = cat [str ''```'', Ahead False (str ''json''), Opt (Grp 1 (Plus True (Cls CWord))),
     Star True sp, NL, Grp 2 (Star False Dot), NL, str ''```'']"

text \<open>
  \<^verbatim>\<open>File:\s*(.+?)(?:\n|$)\<close>

  \<^verbatim>\<open>File\s*[#:]?\s*(.+?)(?:\n|$)\<close>

  \<^verbatim>\<open>^(?:-|\*|\d+\.)\s*(.+?\.(?:py|js|ts|java|cpp|c|h|go|rs|php|rb|sh|md|txt|json|yaml|yml))\<close>

  \<^verbatim>\<open>\b(?:modif|chang|updat|add|remov|delet).*?\s+file\s+["\']?(.+?)["\']?(?:\s|$|\.)\<close>
\<close>
definition bullet :: rx where
  "bullet = alts [Lit 45, Lit 42, cat [Plus True dg, Lit 46]]"

definition file_patterns :: "rx list" where
  "file_patterns =
   [cat [str ''File:'', Star True sp, Grp 1 (Plus False Dot), Alt NL Eol],
    cat [str ''File'', Star True sp, Opt (OneOf [35, 58]), Star True sp, Grp 1 (Plus False Dot),
         Alt NL Eol],
    cat [Bol, bullet, Star True sp,
         Grp 1 (cat [Plus False Dot, Lit 46,
           alts [str ''py'', str ''js'', str ''ts'', str ''java'', str ''cpp'', str ''c'', str ''h'',
                 str ''go'', str ''rs'', str ''php'', str ''rb'', str ''sh'', str ''md'', str ''txt'',
                 str ''json'', str ''yaml'', str ''yml'']])],
    cat [WordB,
         alts [str ''modif'', str ''chang'', str ''updat'', str ''add'', str ''remov'', str ''delet''],
         Star False Dot, Plus True sp, str ''file'', Plus True sp, Opt quote,
         Grp 1 (Plus False Dot), Opt quote, alts [sp, Eol, Lit 46]]]"

text \<open>\<^verbatim>\<open>^\s*(.+?)\s*[:=]\s*(.+?)\s*$\<close>\<close>
definition kv_pattern :: rx where
  "kv_pattern = cat [Bol, Star True sp, Grp 1 (Plus False Dot), Star True sp, OneOf [58, 61],
     Star True sp, Grp 2 (Plus False Dot), Star True sp, Eol]"

text \<open>
  \<^verbatim>\<open>```(?:patch|diff)\s*\n(.*?)\n```\<close>

  \<^verbatim>\<open>^--- a/(.+?)\n\+\+\+ b/(.+?)(?:\n@@.*?(?:\n.*?)*?)(?=\n---|\n```|\Z)\<close>

  \<^verbatim>\<open>@@ -\d+,\d+ \+\d+,\d+ @@\n(?:.*?\n)*?(?=\n@@|\n---|\n```|\Z)\<close>
\<close>
definition diff_patterns :: "rx list" where
  "diff_patterns =
   [cat [str ''```'', alts [str ''patch'', str ''diff''], Star True sp, NL, Grp 1 (Star False Dot),
         NL, str ''```''],
    cat [Bol, str ''--- a/'', Grp 1 (Plus False Dot), NL, str ''+++ b/'', Grp 2 (Plus False Dot),
         cat [NL, str ''@@'', Star False Dot, Star False (cat [NL, Star False Dot])],
         Ahead True (alts [cat [NL, str ''---''], cat [NL, str ''```''], EndZ])],
    cat [str ''@@ -'', Plus True dg, Lit 44, Plus True dg, str '' +'', Plus True dg, Lit 44,
         Plus True dg, str '' @@'', NL, Star False (cat [Star False Dot, NL]),
         Ahead True (alts [cat [NL, str ''@@''], cat [NL, str ''---''], cat [NL, str ''```''], EndZ])]]"

text \<open>\<^verbatim>\<open>--- a/(.+?)\n\+\+\+ b/(.+?)\n\<close>\<close>
definition header_pat :: rx where
  "header_pat = cat [str ''--- a/'', Grp 1 (Plus False Dot), NL, str ''+++ b/'',
     Grp 2 (Plus False Dot), NL]"

text \<open>\<^verbatim>\<open>Replace:\s*["\']?(.+?)["\']?\s*\<close>\<rightarrow>\<^verbatim>\<open>\s*["\']?(.+?)["\']?(?:\s|$)\<close>,
  the arrow being the code point 8594.\<close>
definition simple_pattern :: rx where
  "simple_pattern = cat [str ''Replace:'', Star True sp, Opt quote, Grp 1 (Plus False Dot),
     Opt quote, Star True sp, Lit 8594, Star True sp, Opt quote, Grp 2 (Plus False Dot),
     Opt quote, Alt sp Eol]"

text \<open>
  \<^verbatim>\<open>Commit(?: Message)?:\s*(.+?)(?:\n|$)\<close>

  \<^verbatim>\<open>^`(.+?)`\s*$\<close>

  \<^verbatim>\<open>feat(?:ure)?:\s*(.+?)(?:\n|$)\<close>

  \<^verbatim>\<open>^(?:-|\*|\d+\.)\s*(.+?)(?:\n|$)\<close>
\<close>
definition commit_patterns :: "rx list" where
  "commit_patterns =
   [cat [str ''Commit'', Opt (str '' Message''), Lit 58, Star True sp, Grp 1 (Plus False Dot),
         Alt NL Eol],
    cat [Bol, Lit 96, Grp 1 (Plus False Dot), Lit 96, Star True sp, Eol],
    cat [str ''feat'', Opt (str ''ure''), Lit 58, Star True sp, Grp 1 (Plus False Dot),
         Alt NL Eol],
    cat [Bol, bullet, Star True sp, Grp 1 (Plus False Dot), Alt NL Eol]]"


section \<open>The processor\<close>

definition findall1 :: "rx \<Rightarrow> utab \<Rightarrow> reflags \<Rightarrow> pystr \<Rightarrow> pystr list" where
  "findall1 r U F t = map (\<lambda>m. grp m 1) (finditer r U F t)"

definition findall2 :: "rx \<Rightarrow> utab \<Rightarrow> reflags \<Rightarrow> pystr \<Rightarrow> (pystr \<times> pystr) list" where
  "findall2 r U F t = map (\<lambda>m. (grp m 1, grp m 2)) (finditer r U F t)"

definition is_ok :: "exn + 'a \<Rightarrow> bool" where
  "is_ok r = (case r of Inl e \<Rightarrow> False | Inr v \<Rightarrow> True)"

subsection \<open>\<open>_detect_response_type\<close>\<close>

definition detect_response_type :: "env \<Rightarrow> pystr \<Rightarrow> pystr" where
  "detect_response_type E content =
    (if (startswith (str_strip content) (u ''{'') \<or> startswith (str_strip content) (u ''[''))
        \<and> is_ok (json_loads E content)
     then u ''json''
     else if contains (take 100 content) (u ''---'') \<and> yaml_safe_load_ok E content
     then u ''yaml''
     else if re_search fence_tag_pat (tab E) fl_none content \<noteq> None
     then u ''mixed''
     else if re_search heading_pat (tab E) fl_M content \<noteq> None
     then u ''markdown''
     else u ''text'')"

subsection \<open>\<open>_extract_changes_from_text\<close>\<close>

definition change_entry :: "pystr \<Rightarrow> pyval" where
  "change_entry m = PDict
     [(u ''file_path'', PStr (str_strip m)),
      (u ''change_type'', PStr (u ''modify'')),
      (u ''description'', PStr (u ''Change detected in '' @ str_strip m)),
      (u ''source'', PStr (u ''text_extraction''))]"

text \<open>The body of the loop over \<open>file_patterns\<close>, then the loop.\<close>

definition changes_of_pattern :: "utab \<Rightarrow> pystr \<Rightarrow> rx \<Rightarrow> pyval list" where
  "changes_of_pattern U text pattern =
     map change_entry
       (filter (\<lambda>m. str_strip m \<noteq> [] \<and> 46 \<in> set m) (findall1 pattern U fl_IM text))"

definition extract_changes_from_text :: "utab \<Rightarrow> pystr \<Rightarrow> pyval list" where
  "extract_changes_from_text U text = concat (map (changes_of_pattern U text) file_patterns)"

subsection \<open>\<open>_extract_structured_data\<close>\<close>

text \<open>The value of a pair: parsed as JSON when it looks like a list or a dict and
  parses, else the string itself.\<close>

definition kv_value :: "env \<Rightarrow> pystr \<Rightarrow> pyval" where
  "kv_value E v =
     (if startswith v (u ''['') \<or> startswith v (u ''{'')
      then (case json_loads E v of Inr j \<Rightarrow> j | Inl e \<Rightarrow> PStr v)
      else PStr v)"

definition kv_line :: "env \<Rightarrow> pydict \<Rightarrow> pystr \<Rightarrow> pydict" where
  "kv_line E result line =
     (case re_match kv_pattern (tab E) fl_none line of
        None \<Rightarrow> result
      | Some m \<Rightarrow>
          AList.update (replace_chr 32 95 (str_lower (tab E) (str_strip (grp m 1))))
            (kv_value E (str_strip (grp m 2))) result)"

definition extract_structured_data :: "env \<Rightarrow> pystr \<Rightarrow> pydict" where
  "extract_structured_data E content = foldl (kv_line E) [] (split_on 10 content)"

subsection \<open>\<open>_parse_json_response\<close>\<close>

text \<open>Only \<open>JSONDecodeError\<close> is caught by the outer handler; the inner one catches all.\<close>

definition parse_json_response :: "env \<Rightarrow> pystr \<Rightarrow> exn + pyval" where
  "parse_json_response E content =
     (case json_loads E content of
        Inr v \<Rightarrow> Inr v
      | Inl JSONDecodeError \<Rightarrow>
          (case (case re_search json_pattern (tab E) fl_S content of
                   None \<Rightarrow> None
                 | Some m \<Rightarrow> (case json_loads E (grp m 1) of Inr v \<Rightarrow> Some v | Inl e \<Rightarrow> None)) of
             Some v \<Rightarrow> Inr v
           | None \<Rightarrow> Inr (PDict (extract_structured_data E content)))
      | Inl e \<Rightarrow> Inl e)"

subsection \<open>\<open>_parse_markdown_response\<close>\<close>

record md_result =
  md_changes :: "pyval list"
  md_summary :: pystr
  md_details :: pydict
  md_plan :: "pystr option"

text \<open>The keyword dispatch on a section's title (with its lower-case form) and body.\<close>

definition md_dispatch :: "utab \<Rightarrow> md_result \<Rightarrow> pystr \<Rightarrow> pystr \<Rightarrow> pystr \<Rightarrow> md_result" where
  "md_dispatch U result title title_lower body =
     (if contains title_lower (u ''change'') \<or> contains title_lower (u ''modification'')
      then result\<lparr>md_changes := extract_changes_from_text U body\<rparr>
      else if contains title_lower (u ''summary'') \<or> contains title_lower (u ''overview'')
      then result\<lparr>md_summary := body\<rparr>
      else if contains title_lower (u ''implementation'') \<or> contains title_lower (u ''plan'')
      then result\<lparr>md_plan := Some body\<rparr>
      else result\<lparr>md_details := AList.update title (PStr body) (md_details result)\<rparr>)"

definition md_titled :: "utab \<Rightarrow> md_result \<Rightarrow> pystr \<Rightarrow> pystr \<Rightarrow> md_result" where
  "md_titled U result title body =
     (if title = [] then result else md_dispatch U result title (str_lower U title) body)"

definition md_section :: "utab \<Rightarrow> md_result \<Rightarrow> pystr \<Rightarrow> md_result" where
  "md_section U result section =
     (if str_strip section = [] then result
      else case split_on 10 section of
        [] \<Rightarrow> result
      | l # ls \<Rightarrow> md_titled U result (str_strip l) (str_strip (join [10] ls)))"

definition md_sections :: "utab \<Rightarrow> pystr \<Rightarrow> md_result" where
  "md_sections U content =
     foldl (md_section U) \<lparr>md_changes = [], md_summary = [], md_details = [], md_plan = None\<rparr>
       (re_split section_pat U fl_none content)"

definition md_dict :: "md_result \<Rightarrow> pydict" where
  "md_dict r =
     [(u ''changes'', PList (md_changes r)),
      (u ''summary'', PStr (md_summary r)),
      (u ''details'', PDict (md_details r))]
     @ (case md_plan r of None \<Rightarrow> [] | Some b \<Rightarrow> [(u ''implementation_plan'', PStr b)])"

definition parse_markdown_response :: "utab \<Rightarrow> pystr \<Rightarrow> pydict" where
  "parse_markdown_response U content = md_dict (md_sections U content)"

subsection \<open>\<open>_parse_text_response\<close>\<close>

definition parse_text_response :: "utab \<Rightarrow> pystr \<Rightarrow> pydict" where
  "parse_text_response U content =
     [(u ''raw_content'', PStr content),
      (u ''changes'', PList (extract_changes_from_text U content)),
      (u ''summary'', PStr (if length content > 500 then take 500 content @ u ''...'' else content))]"


subsection \<open>\<open>_parse_mixed_response\<close>\<close>

text \<open>What \<open>list.extend\<close> draws from its argument: the items of a list, the characters
  of a string, the keys of a dict; any other value is not iterable.\<close>

definition py_iter :: "pyval \<Rightarrow> exn + pyval list" where
  "py_iter v = (case v of
       PList xs \<Rightarrow> Inr xs
     | PStr s \<Rightarrow> Inr (map (\<lambda>c. PStr [c]) s)
     | PDict d \<Rightarrow> Inr (map (\<lambda>kv. PStr (fst kv)) d)
     | _ \<Rightarrow> Inl TypeError)"

definition dict_update_all :: "pydict \<Rightarrow> pydict \<Rightarrow> pydict" where
  "dict_update_all data result = foldl (\<lambda>r kv. AList.update (fst kv) (snd kv) r) result data"

text \<open>\<open>result['changes'].extend(xs)\<close>; the entry is a list whenever this runs.\<close>

definition extend_changes :: "pyval list \<Rightarrow> pydict \<Rightarrow> exn + pydict" where
  "extend_changes xs result =
     (case map_of result (u ''changes'') of
        Some (PList cs) \<Rightarrow> Inr (AList.update (u ''changes'') (PList (cs @ xs)) result)
      | _ \<Rightarrow> Inl AttributeError)"

definition mixed_json_try :: "env \<Rightarrow> pydict \<Rightarrow> pystr \<Rightarrow> exn + pydict" where
  "mixed_json_try E result json_block =
     (case json_loads E json_block of
        Inl e \<Rightarrow> Inl e
      | Inr (PList xs) \<Rightarrow> extend_changes xs result
      | Inr (PDict d) \<Rightarrow>
          (case map_of d (u ''changes'') of
             Some v \<Rightarrow> (case py_iter v of Inl e \<Rightarrow> Inl e | Inr xs \<Rightarrow> extend_changes xs result)
           | None \<Rightarrow> Inr (dict_update_all d result))
      | Inr v \<Rightarrow> Inr result)"

text \<open>The loop body is inside \<open>try ... except: pass\<close>: any error leaves the result as it was.\<close>

definition mixed_json_block :: "env \<Rightarrow> pydict \<Rightarrow> pystr \<Rightarrow> pydict" where
  "mixed_json_block E result json_block =
     (case mixed_json_try E result json_block of Inl e \<Rightarrow> result | Inr r \<Rightarrow> r)"

definition code_block_entry :: "pystr \<times> pystr \<Rightarrow> pyval" where
  "code_block_entry lc = PDict
     [(u ''language'', PStr (if fst lc = [] then u ''text'' else fst lc)),
      (u ''content'', PStr (snd lc))]"

text \<open>\<open>result['code_blocks'].append(...)\<close>: only a list has \<open>append\<close>.\<close>

definition mixed_code_block :: "pydict \<Rightarrow> pystr \<times> pystr \<Rightarrow> exn + pydict" where
  "mixed_code_block result lc =
     (case map_of result (u ''code_blocks'') of
        Some (PList bs) \<Rightarrow>
          Inr (AList.update (u ''code_blocks'') (PList (bs @ [code_block_entry lc])) result)
      | _ \<Rightarrow> Inl AttributeError)"

text \<open>\<open>result['sections'][title] = body\<close>: only a dict takes a string key.\<close>

definition mixed_titled :: "pydict \<Rightarrow> pystr \<Rightarrow> pystr \<Rightarrow> exn + pydict" where
  "mixed_titled result title body =
     (if title \<noteq> [] \<and> body \<noteq> []
      then (case map_of result (u ''sections'') of
              Some (PDict d) \<Rightarrow>
                Inr (AList.update (u ''sections'') (PDict (AList.update title (PStr body) d)) result)
            | _ \<Rightarrow> Inl TypeError)
      else Inr result)"

definition mixed_section :: "pydict \<Rightarrow> pystr \<Rightarrow> exn + pydict" where
  "mixed_section result section =
     (if str_strip section = [] then Inr result
      else case split_on 10 section of
        [] \<Rightarrow> Inr result
      | l # ls \<Rightarrow> mixed_titled result (str_strip l) (str_strip (join [10] ls)))"

fun try_fold :: "('s \<Rightarrow> 'a \<Rightarrow> exn + 's) \<Rightarrow> 's \<Rightarrow> 'a list \<Rightarrow> exn + 's" where
  "try_fold f s [] = Inr s"
| "try_fold f s (x # xs) = (case f s x of Inl e \<Rightarrow> Inl e | Inr s' \<Rightarrow> try_fold f s' xs)"

definition mixed_init :: pydict where
  "mixed_init = [(u ''changes'', PList []), (u ''code_blocks'', PList []), (u ''sections'', PDict [])]"

definition parse_mixed_response :: "env \<Rightarrow> pystr \<Rightarrow> exn + pydict" where
  "parse_mixed_response E content =
     (case try_fold mixed_code_block
             (foldl (mixed_json_block E) mixed_init (findall1 json_pattern (tab E) fl_S content))
             (findall2 code_pattern (tab E) fl_S content) of
        Inl e \<Rightarrow> Inl e
      | Inr result \<Rightarrow>
          try_fold mixed_section result (re_split section_pat (tab E) fl_none content))"

subsection \<open>\<open>_extract_patches\<close>\<close>

record patch =
  p_content :: pystr
  p_file :: pystr
  p_format :: pystr

text \<open>\<open>patch_content\<close> is \<open>match.group(0)\<close>, the whole matched text.\<close>

definition patch_of_content :: "utab \<Rightarrow> pystr \<Rightarrow> patch" where
  "patch_of_content U patch_content =
     \<lparr>p_content = patch_content,
      p_file = (case re_search header_pat U fl_none patch_content of
                  Some fm \<Rightarrow> grp fm 1
                | None \<Rightarrow> u ''unknown''),
      p_format = u ''unified_diff''\<rparr>"

definition diff_patch :: "utab \<Rightarrow> rematch \<Rightarrow> patch" where
  "diff_patch U m = patch_of_content U (m_text m)"

definition simple_patch :: "pystr \<times> pystr \<Rightarrow> patch" where
  "simple_patch on = \<lparr>p_content = [45] @ fst on @ [10, 43] @ snd on,
     p_file = u ''unknown'', p_format = u ''simple_replace''\<rparr>"

definition patches_of_pattern :: "utab \<Rightarrow> pystr \<Rightarrow> rx \<Rightarrow> patch list" where
  "patches_of_pattern U text pattern = map (diff_patch U) (finditer pattern U fl_SM text)"

definition extract_patches :: "utab \<Rightarrow> pystr \<Rightarrow> patch list" where
  "extract_patches U text =
     concat (map (patches_of_pattern U text) diff_patterns)
     @ map simple_patch (findall2 simple_pattern U fl_M text)"

definition patch_val :: "patch \<Rightarrow> pyval" where
  "patch_val p = PDict [(u ''content'', PStr (p_content p)), (u ''file'', PStr (p_file p)),
     (u ''format'', PStr (p_format p))]"

subsection \<open>\<open>_extract_commit_messages\<close>\<close>

text \<open>\<open>list(dict.fromkeys(messages))\<close>: the keys of a dict filled in list order.\<close>

definition fromkeys :: "pystr list \<Rightarrow> pydict" where
  "fromkeys ms = foldl (\<lambda>d m. AList.update m PNone d) [] ms"

definition messages_of_pattern :: "utab \<Rightarrow> pystr \<Rightarrow> rx \<Rightarrow> pystr list" where
  "messages_of_pattern U text pattern =
     map str_strip (filter (\<lambda>m. length (str_strip m) > 10) (findall1 pattern U fl_IM text))"

definition extract_commit_messages :: "utab \<Rightarrow> pystr \<Rightarrow> pystr list" where
  "extract_commit_messages U text =
     take 5 (map fst (fromkeys (concat (map (messages_of_pattern U text) commit_patterns))))"

subsection \<open>\<open>parse_response\<close>\<close>

text \<open>Item assignment with a string key on a parsed value: a dict takes it, a list (or
  any other value) raises \<open>TypeError\<close>.\<close>

definition py_setitem :: "pyval \<Rightarrow> pystr \<Rightarrow> pyval \<Rightarrow> exn + pyval" where
  "py_setitem d k v = (case d of PDict kvs \<Rightarrow> Inr (PDict (AList.update k v kvs)) | _ \<Rightarrow> Inl TypeError)"

definition parser_for :: "pystr \<Rightarrow> env \<Rightarrow> pystr \<Rightarrow> exn + pyval" where
  "parser_for response_type E text =
     (if response_type = u ''json'' then parse_json_response E text
      else if response_type = u ''markdown'' then Inr (PDict (parse_markdown_response (tab E) text))
      else if response_type = u ''text'' then Inr (PDict (parse_text_response (tab E) text))
      else if response_type = u ''mixed''
      then (case parse_mixed_response E text of Inl e \<Rightarrow> Inl e | Inr d \<Rightarrow> Inr (PDict d))
      else Inr (PDict (parse_text_response (tab E) text)))"

definition metadata :: "env \<Rightarrow> pystr \<Rightarrow> pystr \<Rightarrow> pystr \<Rightarrow> pyval" where
  "metadata E response_file response_type text = PDict
     [(u ''response_file'', PStr response_file),
      (u ''response_type'', PStr response_type),
      (u ''parsed_at'', PStr (now_iso E)),
      (u ''content_length'', PInt (int (length text)))]"

text \<open>\<open>response_file\<close> is the path as a string, \<open>text\<close> what \<open>read_text\<close> returned.\<close>

text \<open>The steps after the shape is known.\<close>

definition assemble :: "env \<Rightarrow> pystr \<Rightarrow> pystr \<Rightarrow> pystr \<Rightarrow> exn + pyval" where
  "assemble E response_file text response_type =
     (case parser_for response_type E text of
        Inl e \<Rightarrow> Inl e
      | Inr d0 \<Rightarrow>
     (case py_setitem d0 (u ''patches'') (PList (map patch_val (extract_patches (tab E) text))) of
        Inl e \<Rightarrow> Inl e
      | Inr d1 \<Rightarrow>
     (case py_setitem d1 (u ''commits'') (PList (map PStr (extract_commit_messages (tab E) text))) of
        Inl e \<Rightarrow> Inl e
      | Inr d2 \<Rightarrow>
     py_setitem d2 (u ''metadata'') (metadata E response_file response_type text))))"

definition parse_response :: "env \<Rightarrow> pystr \<Rightarrow> pystr \<Rightarrow> exn + pyval" where
  "parse_response E response_file text =
     assemble E response_file text (detect_response_type E text)"


section \<open>Evaluating the engine on a concrete text\<close>

text \<open>
  The matcher passes continuations. When a concrete text is evaluated by rewriting,
  these rules keep the simplifier from rewriting inside a continuation before it is
  called.
\<close>

lemma rmatch_cong: "r = r' \<Longrightarrow> s = s' \<Longrightarrow> rmatch r U F s k = rmatch r' U F s' k"
  by simp

lemma step_cong: "s = s' \<Longrightarrow> step P s k = step P s' k"
  by simp

lemma star_cong: "fuel = fuel' \<Longrightarrow> s = s' \<Longrightarrow> star g body fuel s k = star g body fuel' s' k"
  by simp

lemma attempt_cong: "r = r' \<Longrightarrow> s = s' \<Longrightarrow> attempt r U F adv s = attempt r' U F adv s'"
  by simp

lemmas ev_cong = rmatch_cong step_cong star_cong attempt_cong

text \<open>The scan unfolds only on a text whose first constructor is known.\<close>

lemma scan_Nil:
  "scan r U F adv [] p i =
     (case rsearch r U F adv [] p i of
        None \<Rightarrow> []
      | Some m \<Rightarrow> m # scan r U F (pos (m_end m) = m_start m)
          (rest (m_end m)) (prev (m_end m)) (pos (m_end m)))"
  by (rule scan.simps)

lemma scan_Cons:
  "scan r U F adv (x # xs) p i =
     (case rsearch r U F adv (x # xs) p i of
        None \<Rightarrow> []
      | Some m \<Rightarrow> m # scan r U F (pos (m_end m) = m_start m)
          (rest (m_end m)) (prev (m_end m)) (pos (m_end m)))"
  by (rule scan.simps)

lemmas ev = u_def str_def cat_def alts_def Plus_def Opt_def step_def attempt_def mk_match_def
  scan_Nil scan_Cons finditer_def re_search_def re_match_def re_split_def findall1_def findall2_def
  grp_def is_space_def is_digit_def is_word_def in_cls_def ci_eq_def ascii_lower_def
  at_bol_def at_eol_def at_wordb_def fl_none_def fl_M_def fl_S_def fl_SM_def fl_IM_def

lemmas ev_patches = simple_pattern_def diff_patterns_def header_pat_def extract_patches_def
  patches_of_pattern_def diff_patch_def patch_of_content_def simple_patch_def

text \<open>
  A concrete environment for the examples: tables in which no code point from 128 on is
  a letter or a digit, and the answers of the two libraries on the texts the examples
  use (\<open>json.loads('[]')\<close> is the empty list; the YAML document below loads).
\<close>

definition ascii_tab :: utab where
  "ascii_tab = \<lparr>uni_alnum = (\<lambda>c. False), uni_decimal = (\<lambda>c. False),
     uni_ci_eq = (\<lambda>a b. False), uni_lower = (\<lambda>s. s)\<rparr>"

definition yaml_doc :: pystr where
  "yaml_doc = u ''---\<newline>title: notes\<newline>''"

definition env0 :: env where
  "env0 = \<lparr>tab = ascii_tab,
     json_loads = (\<lambda>s. if s = u ''[]'' then Inr (PList []) else Inl JSONDecodeError),
     yaml_safe_load_ok = (\<lambda>s. s = yaml_doc),
     now_iso = u ''2024-05-01T12:00:00''\<rparr>"

section \<open>The commit-message extractor\<close>

text \<open>The specification's wording: one family's captures, trimmed, kept when longer than
  ten characters; and a list reduced to the first occurrence of each element.\<close>

definition commit_family :: "utab \<Rightarrow> pystr \<Rightarrow> rx \<Rightarrow> pystr list" where
  "commit_family U text pattern =
     filter (\<lambda>m. 10 < length m) (map str_strip (findall1 pattern U fl_IM text))"

fun first_occurrences :: "'a list \<Rightarrow> 'a list" where
  "first_occurrences [] = []"
| "first_occurrences (x # xs) = x # first_occurrences (filter (\<lambda>y. y \<noteq> x) xs)"

lemma first_occurrences_set: "set (first_occurrences xs) = set xs"
  by (induction xs rule: first_occurrences.induct) auto

lemma first_occurrences_distinct: "distinct (first_occurrences xs)"
  by (induction xs rule: first_occurrences.induct) (auto simp: first_occurrences_set)

lemma update_keys_fst:
  "map fst (AList.update k v d) = (if k \<in> set (map fst d) then map fst d else map fst d @ [k])"
  by (induction d) auto

lemma fromkeys_fold:
  "map fst (foldl (\<lambda>d m. AList.update m PNone d) d0 ms)
     = map fst d0 @ first_occurrences (filter (\<lambda>m. m \<notin> set (map fst d0)) ms)"
proof (induction ms arbitrary: d0)
  case Nil
  show ?case by simp
next
  case (Cons x xs)
  show ?case
  proof (cases "x \<in> set (map fst d0)")
    case True
    then have "map fst (AList.update x PNone d0) = map fst d0" by (simp add: update_keys_fst)
    with True Cons.IH[of "AList.update x PNone d0"] show ?thesis by simp
  next
    case False
    then have k: "map fst (AList.update x PNone d0) = map fst d0 @ [x]"
      by (simp add: update_keys_fst)
    have f: "filter (\<lambda>m. m \<notin> set (map fst d0 @ [x])) xs
           = filter (\<lambda>y. y \<noteq> x) (filter (\<lambda>m. m \<notin> set (map fst d0)) xs)"
      by (induction xs) auto
    from False Cons.IH[of "AList.update x PNone d0"] show ?thesis
      unfolding k f by simp
  qed
qed

lemma fromkeys_first_occurrences: "map fst (fromkeys ms) = first_occurrences ms"
  using fromkeys_fold[of "[]" ms] by (simp add: fromkeys_def)

text \<open>
  Claim C6. For every text the commit-message extractor returns at most five strings:
  the captures of the four pattern families, in pattern order, each trimmed and kept
  when longer than ten characters, reduced to first occurrences, cut to the first five.
\<close>

theorem extract_commit_messages_spec:
  "extract_commit_messages U text
     = take 5 (first_occurrences
         (commit_family U text (commit_patterns ! 0) @ commit_family U text (commit_patterns ! 1)
          @ commit_family U text (commit_patterns ! 2) @ commit_family U text (commit_patterns ! 3)))
   \<and> length commit_patterns = 4
   \<and> length (extract_commit_messages U text) \<le> 5
   \<and> distinct (extract_commit_messages U text)"
proof -
  have "messages_of_pattern U text = commit_family U text"
    by (rule ext) (simp add: messages_of_pattern_def commit_family_def filter_map comp_def)
  then have "extract_commit_messages U text
      = take 5 (first_occurrences (concat (map (commit_family U text) commit_patterns)))"
    by (simp add: extract_commit_messages_def fromkeys_first_occurrences)
  moreover have "length commit_patterns = 4" by (simp add: commit_patterns_def)
  moreover have "concat (map (commit_family U text) commit_patterns)
      = commit_family U text (commit_patterns ! 0) @ commit_family U text (commit_patterns ! 1)
          @ commit_family U text (commit_patterns ! 2) @ commit_family U text (commit_patterns ! 3)"
    by (simp add: commit_patterns_def)
  ultimately show ?thesis
    by (simp add: first_occurrences_distinct)
qed

section \<open>A text detected as YAML\<close>

text \<open>
  Claim C10. When the detected shape is \<open>yaml\<close> the assembler runs the plain-text
  parser, the parser table having no entry for that tag: the record holds
  \<open>raw_content\<close>, the heuristic \<open>changes\<close> and the 500-character \<open>summary\<close>, then
  \<open>patches\<close> and \<open>commits\<close>, and \<open>metadata\<close> with the shape \<open>yaml\<close>.
\<close>

theorem parse_response_yaml:
  assumes "detect_response_type E text = u ''yaml''"
  shows "parse_response E response_file text = Inr (PDict
     [(u ''raw_content'', PStr text),
      (u ''changes'', PList (extract_changes_from_text (tab E) text)),
      (u ''summary'', PStr (if length text > 500 then take 500 text @ u ''...'' else text)),
      (u ''patches'', PList (map patch_val (extract_patches (tab E) text))),
      (u ''commits'', PList (map PStr (extract_commit_messages (tab E) text))),
      (u ''metadata'', PDict
         [(u ''response_file'', PStr response_file),
          (u ''response_type'', PStr (u ''yaml'')),
          (u ''parsed_at'', PStr (now_iso E)),
          (u ''content_length'', PInt (int (length text)))])])"
proof -
  have p: "parser_for (u ''yaml'') E text = Inr (PDict (parse_text_response (tab E) text))"
    by (simp add: parser_for_def u_def)
  show ?thesis
    unfolding parse_response_def assemble_def assms p
    by (simp add: py_setitem_def parse_text_response_def metadata_def u_def)
qed

theorem parse_response_yaml_witness:
  "detect_response_type env0 yaml_doc = u ''yaml''
   \<and> parse_response env0 (u ''reply.md'') yaml_doc = Inr (PDict
     [(u ''raw_content'', PStr yaml_doc),
      (u ''changes'', PList (extract_changes_from_text (tab env0) yaml_doc)),
      (u ''summary'', PStr yaml_doc),
      (u ''patches'', PList (map patch_val (extract_patches (tab env0) yaml_doc))),
      (u ''commits'', PList (map PStr (extract_commit_messages (tab env0) yaml_doc))),
      (u ''metadata'', PDict
         [(u ''response_file'', PStr (u ''reply.md'')),
          (u ''response_type'', PStr (u ''yaml'')),
          (u ''parsed_at'', PStr (u ''2024-05-01T12:00:00'')),
          (u ''content_length'', PInt 17)])])"
proof -
  have d: "detect_response_type env0 yaml_doc = u ''yaml''"
    by (simp add: detect_response_type_def env0_def yaml_doc_def str_strip_def is_space_def u_def)
  have l: "length yaml_doc = 17" by (simp add: yaml_doc_def u_def)
  from parse_response_yaml[OF d, of "u ''reply.md''"] d l show ?thesis
    by (simp add: env0_def)
qed


section \<open>The patch extractor on the examples of the specification\<close>

text \<open>
  Claim C7. For the one-line text \<open>Replace: "old_value"\<close> \<rightarrow> \<open>"new_value"\<close> the patch
  extractor returns one record: content \<open>-old_value\<close>, newline, \<open>+new_value\<close>, file
  \<open>unknown\<close>, format \<open>simple_replace\<close>. This holds whatever the character tables.
\<close>

theorem extract_patches_simple_replace:
  "extract_patches U (u ''Replace: '' @ [34] @ u ''old_value'' @ [34] @ u '' '' @ [8594] @ u '' ''
       @ [34] @ u ''new_value'' @ [34])
   = [\<lparr>p_content = u ''-old_value\<newline>+new_value'', p_file = u ''unknown'',
        p_format = u ''simple_replace''\<rparr>]"
  by (simp add: ev ev_patches cong: ev_cong)

text \<open>
  Claim C4 says that the record of a fenced \<open>patch\<close> or \<open>diff\<close> block holds the block
  body, the fence lines excluded. The extractor stores \<open>match.group(0)\<close>, the whole
  match: for the block below the content is the block with both fence lines, not its
  body (the two header lines). File and format are as the claim says.
\<close>

definition fenced_patch :: pystr where
  "fenced_patch = u ''```patch\<newline>--- a/foo.py\<newline>+++ b/foo.py\<newline>```''"

theorem extract_patches_keeps_fences:
  "extract_patches ascii_tab fenced_patch
     = [\<lparr>p_content = u ''```patch\<newline>--- a/foo.py\<newline>+++ b/foo.py\<newline>```'',
          p_file = u ''foo.py'', p_format = u ''unified_diff''\<rparr>]
   \<and> u ''```patch\<newline>--- a/foo.py\<newline>+++ b/foo.py\<newline>```'' \<noteq> u ''--- a/foo.py\<newline>+++ b/foo.py''"
  by (simp add: fenced_patch_def ev ev_patches cong: ev_cong)



section \<open>The markdown parser and a heading on the first line\<close>

lemmas ev_changes = extract_changes_from_text_def changes_of_pattern_def file_patterns_def
  bullet_def change_entry_def str_strip_def

lemmas ev_md = parse_markdown_response_def md_sections_def md_section_def md_titled_def
  md_dispatch_def md_dict_def section_pat_def str_lower_def

text \<open>
  Claim C8 says that the body under the heading \<open>## Notes\<close> is stored under
  \<open>details["Notes"]\<close>. The split pattern needs a newline before the \<open>#\<close> marks, so a
  heading on the first line of the text keeps them: below, the Notes body is stored
  under the key \<open>## Notes\<close>. Summary and changes are as the claim says.
\<close>

definition notes_first :: pystr where
  "notes_first = u ''## Notes\<newline>keep\<newline>## Changes\<newline>File: a.py\<newline>## Summary\<newline>short''"

theorem parse_markdown_first_heading:
  "parse_markdown_response ascii_tab notes_first =
     [(u ''changes'', PList [change_entry (u ''a.py''), change_entry (u ''a.py'')]),
      (u ''summary'', PStr (u ''short'')),
      (u ''details'', PDict [(u ''## Notes'', PStr (u ''keep''))])]"
  by (simp add: notes_first_def ascii_tab_def ev ev_md ev_changes cong: ev_cong)

section \<open>A JSON document that is a list\<close>

text \<open>
  Claim C1 says that the pipeline never raises. A text that starts with \<open>[\<close> and parses
  as JSON is classified \<open>json\<close>; the JSON parser returns the list, and the assignment
  \<open>parsed_data['patches'] = ...\<close> on a list raises \<open>TypeError\<close>.
\<close>

theorem parse_response_json_list_raises:
  assumes "json_loads E text = Inr (PList xs)"
    and "startswith (str_strip text) (u ''['')"
  shows "parse_response E response_file text = Inl TypeError"
proof -
  have d: "detect_response_type E text = u ''json''"
    using assms by (simp add: detect_response_type_def is_ok_def)
  have "parser_for (u ''json'') E text = Inr (PList xs)"
    using assms(1) by (simp add: parser_for_def parse_json_response_def)
  then show ?thesis
    by (simp add: parse_response_def assemble_def d py_setitem_def)
qed

theorem parse_response_json_list_raises_witness:
  "json_loads env0 (u ''[]'') = Inr (PList []) \<and> startswith (str_strip (u ''[]'')) (u ''['')
   \<and> parse_response env0 (u ''reply.md'') (u ''[]'') = Inl TypeError"
proof -
  have j: "json_loads env0 (u ''[]'') = Inr (PList [])" by (simp add: env0_def)
  have t: "startswith (str_strip (u ''[]'')) (u ''['')"
    by (simp add: str_strip_def is_space_def u_def)
  from parse_response_json_list_raises[OF j t] j t show ?thesis by simp
qed


section \<open>The fields of the assembled record\<close>


definition has_key :: "pydict \<Rightarrow> pystr \<Rightarrow> bool" where
  "has_key d k = (map_of d k \<noteq> None)"


lemma has_key_update_same: "has_key (AList.update k v d) k"
  by (simp add: has_key_def update_conv')









lemma detect_response_type_range:
  "detect_response_type E text \<in> {u ''json'', u ''yaml'', u ''mixed'', u ''markdown'', u ''text''}"
  by (simp add: detect_response_type_def)




















section \<open>Literal strings and the two patterns of the classifier\<close>

text \<open>The state after reading the string \<open>w\<close>.\<close>

definition fwd :: "pystr \<Rightarrow> mstate \<Rightarrow> mstate" where
  "fwd w s = MState (drop (length w) (rest s)) (if w = [] then prev s else Some (last w))
     (pos s + length w) (caps s)"

lemma rmatch_lits:
  "\<not> icase F \<Longrightarrow> rmatch (foldr Seq (map Lit w) Eps) U F s k
     = (if startswith (rest s) w then k (fwd w s) else None)"
proof (induction w arbitrary: s)
  case Nil
  show ?case by (cases s) (simp add: fwd_def)
next
  case (Cons c w)
  show ?case
  proof (cases "rest s")
    case Nil
    then show ?thesis by (simp add: step_def)
  next
    case (Cons x xs)
    let ?s1 = "MState xs (Some x) (pos s + 1) (caps s)"
    have f: "x = c \<Longrightarrow> fwd w ?s1 = fwd (c # w) s"
      using Cons by (simp add: fwd_def)
    have "rmatch (foldr Seq (map Lit (c # w)) Eps) U F s k
        = (if x = c then rmatch (foldr Seq (map Lit w) Eps) U F ?s1 k else None)"
      using Cons Cons.prems by (simp add: step_def)
    also have "\<dots> = (if x = c then (if startswith xs w then k (fwd w ?s1) else None) else None)"
      by (simp only: Cons.IH[OF Cons.prems] mstate.sel)
    also have "\<dots> = (if startswith (rest s) (c # w) then k (fwd (c # w) s) else None)"
      using Cons f by auto
    finally show ?thesis .
  qed
qed

lemma str_lits: "str w = foldr Seq (map Lit (u w)) Eps"
  by (simp add: str_def cat_def u_def comp_def)

lemma rmatch_str:
  "\<not> icase F \<Longrightarrow> rmatch (str w) U F s k
     = (if startswith (rest s) (u w) then k (fwd (u w) s) else None)"
  by (simp add: str_lits rmatch_lits)

lemma startswith_append:
  "startswith xs (a @ b) \<longleftrightarrow> startswith xs a \<and> startswith (drop (length a) xs) b"
proof (induction a arbitrary: xs)
  case Nil
  show ?case by simp
next
  case (Cons c a)
  show ?case by (cases xs) (simp_all add: Cons.IH)
qed

lemma attempt_fence_tag:
  "attempt fence_tag_pat U fl_none False (MState xs p i []) \<noteq> None \<longleftrightarrow>
     startswith xs (u ''```json'') \<or> startswith xs (u ''```patch'') \<or> startswith xs (u ''```diff'')"
proof -
  have a: "u ''```json'' = u ''```'' @ u ''json''" "u ''```patch'' = u ''```'' @ u ''patch''"
    "u ''```diff'' = u ''```'' @ u ''diff''"
    by (simp_all add: u_def)
  have l: "length (u ''```'') = 3" by (simp add: u_def)
  show ?thesis
    unfolding a startswith_append l
    by (simp add: attempt_def fence_tag_pat_def cat_def alts_def rmatch_str fl_none_def fwd_def l
        split: option.splits)
qed

lemma rsearch_fence_tag:
  "rsearch fence_tag_pat U fl_none False xs p i \<noteq> None \<longleftrightarrow>
     contains xs (u ''```json'') \<or> contains xs (u ''```patch'') \<or> contains xs (u ''```diff'')"
proof (induction xs arbitrary: p i)
  case Nil
  have "attempt fence_tag_pat U fl_none False (MState [] p i []) = None"
    using attempt_fence_tag[of U "[]" p i] by (simp add: u_def)
  then show ?case by (simp add: u_def)
next
  case (Cons x xs)
  show ?case
  proof (cases "attempt fence_tag_pat U fl_none False (MState (x # xs) p i [])")
    case None
    with attempt_fence_tag[of U "x # xs" p i] Cons.IH[of "Some x" "i + 1"] show ?thesis
      by simp
  next
    case (Some e)
    with attempt_fence_tag[of U "x # xs" p i] show ?thesis by auto
  qed
qed

text \<open>A heading, in the specification's words: at the start of a line, one or more
  \<open>#\<close> characters followed by a whitespace character.\<close>

fun hashes_then_space :: "pystr \<Rightarrow> bool" where
  "hashes_then_space [] = False"
| "hashes_then_space (c # cs) = (if c = 35 then hashes_then_space cs else is_space c)"

definition heading_here :: "pystr \<Rightarrow> bool" where
  "heading_here xs = (case xs of [] \<Rightarrow> False | c # cs \<Rightarrow> c = 35 \<and> hashes_then_space cs)"

fun has_heading :: "bool \<Rightarrow> pystr \<Rightarrow> bool" where
  "has_heading line_start [] = False"
| "has_heading line_start (c # cs) =
     ((line_start \<and> heading_here (c # cs)) \<or> has_heading (c = 10) cs)"

lemma reach_Seq_Star:
  "reach (Seq (Star g r) X) U F s
     = reach X U F s \<union> (\<Union>s1 \<in> {s1 \<in> reach r U F s. pos s < pos s1}. reach (Seq (Star g r) X) U F s1)"
proof -
  have "reach (Seq (Star g r) X) U F s = (\<Union>s' \<in> {s'. (s, s') \<in> star_reach (reach r U F)}. reach X U F s')"
    by simp
  also have "\<dots> = reach X U F s \<union> (\<Union>s1 \<in> {s1 \<in> reach r U F s. pos s < pos s1}.
       (\<Union>s' \<in> {s'. (s1, s') \<in> star_reach (reach r U F)}. reach X U F s'))"
    by (subst star_reach_unfold) blast
  finally show ?thesis by simp
qed

lemma reach_spaces:
  "reach (Plus g sp) U F s \<noteq> {} \<longleftrightarrow> (case rest s of [] \<Rightarrow> False | c # cs \<Rightarrow> is_space c)"
proof -
  have "(s0, s0) \<in> star_reach f" for s0 :: mstate and f by (rule star_reach.stop)
  then have "reach (Plus g sp) U F s \<noteq> {} \<longleftrightarrow> step_set is_space s \<noteq> {}"
    by (auto simp: Plus_def in_cls_def[abs_def])
  then show ?thesis by (cases "rest s") (auto simp: step_set_def)
qed

lemma reach_hashes:
  "\<not> icase F \<Longrightarrow> reach (Seq (Star g (Lit 35)) (Seq (Plus g' sp) Eps)) U F s \<noteq> {}
     \<longleftrightarrow> hashes_then_space (rest s)"
proof (induction "rest s" arbitrary: s)
  case Nil
  then have "step_set (\<lambda>x. x = 35) s = {}" by (simp add: step_set_def)
  with Nil show ?case
    by (subst reach_Seq_Star) (simp add: reach_spaces)
next
  case (Cons c cs)
  let ?s1 = "MState cs (Some c) (pos s + 1) (caps s)"
  have st: "step_set (\<lambda>x. x = 35) s = (if c = 35 then {?s1} else {})"
    using Cons.hyps(2)[symmetric] by (simp add: step_set_def)
  have ih: "reach (Seq (Star g (Lit 35)) (Seq (Plus g' sp) Eps)) U F ?s1 \<noteq> {}
      \<longleftrightarrow> hashes_then_space cs"
    using Cons.hyps(1)[of ?s1] Cons.prems by simp
  have sp35: "\<not> is_space 35" by (simp add: is_space_def)
  show ?case
    apply (subst reach_Seq_Star)
    using Cons.prems Cons.hyps(2)[symmetric] ih sp35 reach_spaces[of g' U F s]
    by (auto simp: st split: if_splits)
qed

lemma attempt_heading:
  "attempt heading_pat U fl_M False (MState xs p i []) \<noteq> None \<longleftrightarrow>
     (p = None \<or> p = Some 10) \<and> heading_here xs"
proof -
  let ?s = "MState xs p i []"
  have nf: "\<not> icase fl_M" by (simp add: fl_M_def)
  have "attempt heading_pat U fl_M False ?s \<noteq> None \<longleftrightarrow> reach heading_pat U fl_M ?s \<noteq> {}"
    by (simp add: attempt_def rmatch_None_iff)
  also have "reach heading_pat U fl_M ?s
     = (if at_bol fl_M ?s
        then (\<Union>s1 \<in> step_set (\<lambda>x. x = 35) ?s.
                reach (Seq (Star True (Lit 35)) (Seq (Plus True sp) Eps)) U fl_M s1)
        else {})"
    by (simp add: heading_pat_def cat_def Plus_def[of True "Lit 35"] nf)
  also have "\<dots> \<noteq> {} \<longleftrightarrow> (p = None \<or> p = Some 10) \<and> heading_here xs"
    using reach_hashes[OF nf, of True True U]
    by (cases xs) (auto simp: at_bol_def fl_M_def step_set_def heading_here_def split: option.splits)
  finally show ?thesis .
qed

lemma rsearch_heading:
  "rsearch heading_pat U fl_M False xs p i \<noteq> None \<longleftrightarrow> has_heading (p = None \<or> p = Some 10) xs"
proof (induction xs arbitrary: p i)
  case Nil
  with attempt_heading[of U "[]" p i] show ?case
    by (simp add: heading_here_def split: option.splits)
next
  case (Cons x xs)
  show ?case
  proof (cases "attempt heading_pat U fl_M False (MState (x # xs) p i [])")
    case None
    with attempt_heading[of U "x # xs" p i] Cons.IH[of "Some x" "i + 1"] show ?thesis
      by auto
  next
    case (Some e)
    with attempt_heading[of U "x # xs" p i] show ?thesis by auto
  qed
qed

lemma detect_response_type_cascade:
  "detect_response_type E text =
     (if (startswith (str_strip text) (u ''{'') \<or> startswith (str_strip text) (u ''[''))
         \<and> is_ok (json_loads E text)
      then u ''json''
      else if contains (take 100 text) (u ''---'') \<and> yaml_safe_load_ok E text
      then u ''yaml''
      else if contains text (u ''```json'') \<or> contains text (u ''```patch'')
              \<or> contains text (u ''```diff'')
      then u ''mixed''
      else if has_heading True text
      then u ''markdown''
      else u ''text'')"
proof -
  have f: "re_search fence_tag_pat (tab E) fl_none text \<noteq> None \<longleftrightarrow>
      contains text (u ''```json'') \<or> contains text (u ''```patch'') \<or> contains text (u ''```diff'')"
    unfolding re_search_def by (rule rsearch_fence_tag)
  have h: "re_search heading_pat (tab E) fl_M text \<noteq> None \<longleftrightarrow> has_heading True text"
    unfolding re_search_def using rsearch_heading[of "tab E" "text" None 0] by simp
  show ?thesis
    unfolding detect_response_type_def f h by simp
qed

text \<open>
  Claim C5 says that branch (1) is taken when the trimmed text parses as JSON, and
  branch (3) when the text has a fenced block tagged json, patch or diff. The code
  trims only for the test of the first character and parses the text as given: for a
  form feed followed by \<open>[]\<close> the trimmed text \<open>[]\<close> parses, the text itself does not,
  and the tag is \<open>text\<close>. The fence test is a substring test: under a heading, a fence
  tagged \<open>jsonc\<close> gives \<open>mixed\<close>, not \<open>markdown\<close>.
\<close>

theorem detect_response_type_untrimmed:
  "startswith (str_strip [12, 91, 93]) (u ''['')
   \<and> is_ok (json_loads env0 (str_strip [12, 91, 93]))
   \<and> detect_response_type env0 [12, 91, 93] = u ''text''
   \<and> detect_response_type env0 (u ''# T\<newline>```jsonc\<newline>x\<newline>```'') = u ''mixed''"
proof -
  have s: "str_strip [12, 91, 93] = u ''[]''"
    by (simp add: str_strip_def is_space_def u_def)
  have 1: "detect_response_type env0 [12, 91, 93] = u ''text''"
    unfolding detect_response_type_cascade s
    by (simp add: env0_def yaml_doc_def heading_here_def is_ok_def u_def)
  have 2: "detect_response_type env0 (u ''# T\<newline>```jsonc\<newline>x\<newline>```'') = u ''mixed''"
    unfolding detect_response_type_cascade
    by (simp add: env0_def yaml_doc_def str_strip_def is_space_def is_ok_def u_def)
  from 1 2 show ?thesis
    unfolding s by (simp add: env0_def is_ok_def u_def)
qed

text \<open>
  Claim C5, amended. The classifier returns one of the five tags and decides in this
  order: (1) the trimmed text starts with \<open>{\<close> or \<open>[\<close> and the text as given parses as
  JSON; (2) \<open>---\<close> occurs in the first 100 characters and the text loads as YAML; (3)
  the text contains the characters of a fence followed by json, patch or diff, anywhere
  (a longer tag that begins so counts, and no closing fence is needed); (4) some line
  begins with one or more \<open>#\<close> followed by whitespace; (5) otherwise \<open>text\<close>.
\<close>

theorem detect_response_type_spec:
  "detect_response_type E text =
     (if (startswith (str_strip text) (u ''{'') \<or> startswith (str_strip text) (u ''[''))
         \<and> is_ok (json_loads E text)
      then u ''json''
      else if contains (take 100 text) (u ''---'') \<and> yaml_safe_load_ok E text
      then u ''yaml''
      else if contains text (u ''```json'') \<or> contains text (u ''```patch'')
              \<or> contains text (u ''```diff'')
      then u ''mixed''
      else if has_heading True text
      then u ''markdown''
      else u ''text'')
   \<and> detect_response_type E text \<in> {u ''json'', u ''yaml'', u ''mixed'', u ''markdown'', u ''text''}"
  using detect_response_type_cascade[of E "text"] by simp

section \<open>Two calls of the classifier on the same text\<close>

text \<open>A second environment: another clock reading, other character tables, a JSON
  parser that returns another value and accepts every text.\<close>

definition env1 :: env where
  "env1 = \<lparr>tab = \<lparr>uni_alnum = (\<lambda>c. True), uni_decimal = (\<lambda>c. True),
              uni_ci_eq = (\<lambda>a b. True), uni_lower = (\<lambda>s. [])\<rparr>,
     json_loads = (\<lambda>s. Inr (PDict [])),
     yaml_safe_load_ok = (\<lambda>s. s = yaml_doc),
     now_iso = u ''2031-01-01T00:00:00''\<rparr>"

text \<open>
  Claim C9. Classification is deterministic: two calls on the same text return the same
  tag. Between two calls everything the classifier does not own may differ (the clock,
  the character tables, the value the JSON parser returns, the answers of the two
  libraries on other texts); the tag is the same as soon as the two libraries accept or
  reject this text alike in both calls.
\<close>

theorem detect_response_type_deterministic:
  assumes "is_ok (json_loads E1 text) = is_ok (json_loads E2 text)"
    and "yaml_safe_load_ok E1 text = yaml_safe_load_ok E2 text"
  shows "detect_response_type E1 text = detect_response_type E2 text"
  unfolding detect_response_type_cascade using assms by simp

theorem detect_response_type_deterministic_witness:
  "is_ok (json_loads env0 (u ''[]'')) = is_ok (json_loads env1 (u ''[]''))
   \<and> yaml_safe_load_ok env0 (u ''[]'') = yaml_safe_load_ok env1 (u ''[]'')
   \<and> detect_response_type env0 (u ''[]'') = detect_response_type env1 (u ''[]'')"
proof -
  have j: "is_ok (json_loads env0 (u ''[]'')) = is_ok (json_loads env1 (u ''[]''))"
    by (simp add: env0_def env1_def is_ok_def)
  have y: "yaml_safe_load_ok env0 (u ''[]'') = yaml_safe_load_ok env1 (u ''[]'')"
    by (simp add: env0_def env1_def)
  from detect_response_type_deterministic[OF j y] j y show ?thesis by simp
qed

section \<open>A pattern that cannot match without a given character\<close>












section \<open>A block body up to the closing fence\<close>




section \<open>A patch block and a python block\<close>
















end
